theory Spec2Isabelle
  imports Complex_Main "HOL-Library.Multiset"
begin

section \<open>The port scanner of \<^verbatim>\<open>sysadmin_toolkit/port_scanner.py\<close>\<close>

text \<open>
  The module has three functions: \<^verbatim>\<open>scan_port\<close> probes one port, \<^verbatim>\<open>scan_ports\<close>
  probes a range through a thread pool and \<^verbatim>\<open>quick_scan\<close> probes a fixed list one
  port after the other. They are embedded as functions of the network they talk to, of
  the order in which the pool finishes its work and of their arguments; every function
  returns its value (or the exception it raises) together with a trace of its effects.
\<close>

subsection \<open>Exceptions\<close>

text \<open>
  The classes of exception the module can meet. \<^verbatim>\<open>socket.error\<close> is an alias of
  \<^verbatim>\<open>OSError\<close> and \<^verbatim>\<open>socket.gaierror\<close> is a subclass of it; the constructor
  \<open>OSError\<close> stands for every \<^verbatim>\<open>OSError\<close> that is not a \<^verbatim>\<open>gaierror\<close>. The
  other classes are not subclasses of \<^verbatim>\<open>OSError\<close>, so no \<^verbatim>\<open>except\<close> clause of the
  module catches them.
\<close>

datatype exn_class =
  gaierror | OSError | ValueError | OverflowError | UnicodeError | KeyboardInterrupt

datatype exn = Exn exn_class string

fun is_gaierror :: "exn \<Rightarrow> bool" where
  "is_gaierror (Exn c m) = (c = gaierror)"

fun is_OSError :: "exn \<Rightarrow> bool" where
  "is_OSError (Exn c m) = (c = gaierror \<or> c = OSError)"

text \<open>\<^verbatim>\<open>str(e)\<close>: the message of the exception.\<close>

fun str_exn :: "exn \<Rightarrow> string" where
  "str_exn (Exn c m) = m"

subsection \<open>Data\<close>

text \<open>
  The dictionary \<^verbatim>\<open>scan_port\<close> returns. Its key \<^verbatim>\<open>"status"\<close> holds one of the
  strings \<^verbatim>\<open>"abierto"\<close>, \<^verbatim>\<open>"cerrado"\<close>, \<^verbatim>\<open>"error"\<close>; \<^verbatim>\<open>"service"\<close> holds a
  string or \<^verbatim>\<open>None\<close>; the key \<^verbatim>\<open>"error"\<close> exists only in the third kind of result.
\<close>

record port_result =
  port :: int
  status :: string
  service :: "string option"
  error :: "string option"

text \<open>
  The network as the module sees it, one field for each library call whose outcome the
  code inspects. \<open>connect_ex\<close> is the whole of lines 12 to 15 (the socket is created,
  its timeout set, \<^verbatim>\<open>connect_ex\<close> called and the socket closed): it returns the
  code \<^verbatim>\<open>connect_ex\<close> returned, or the exception one of the four calls raised.
  \<^verbatim>\<open>connect_ex\<close> reports what the C-level connect reports (success as 0, a refused
  connection and an elapsed timeout as non-zero error codes) in its return value.
\<close>

record network =
  gethostbyname :: "string \<Rightarrow> exn + string"
  connect_ex :: "string \<Rightarrow> int \<Rightarrow> real \<Rightarrow> exn + int"
  getservbyport :: "int \<Rightarrow> exn + string"

text \<open>The lines the module prints (the timestamps of the banners are left out).\<close>

datatype line =
  Header string int int
  | Resolved_ip string
  | Resolve_error string
  | Open_line int "string option"
  | Progress nat nat
  | Footer nat
  | Quick_header string nat
  | Quick_total nat

text \<open>
  The effects of a run: the arguments of every call of \<^verbatim>\<open>scan_port\<close> that was
  dispatched, in the order of dispatch; every result a probe handed back to the scan,
  in the order the scan received them; the lines printed.
\<close>

record trace =
  probes :: "(string \<times> int \<times> real) list"
  results :: "port_result list"
  stdout :: "line list"

subsection \<open>\<^verbatim>\<open>scan_port\<close>\<close>

definition scan_port :: "network \<Rightarrow> string \<Rightarrow> int \<Rightarrow> real \<Rightarrow> exn + port_result" where
  "scan_port net host p timeout =
     (case connect_ex net host p timeout of
        Inl e \<Rightarrow>
          if is_OSError e
          then Inr \<lparr>port = p, status = ''error'', service = None, error = Some (str_exn e)\<rparr>
          else Inl e
      | Inr result \<Rightarrow>
          if result = 0 then
            (case getservbyport net p of
               Inl e \<Rightarrow>
                 if is_OSError e
                 then Inr \<lparr>port = p, status = ''abierto'',
                           service = Some ''desconocido'', error = None\<rparr>
                 else Inl e
             | Inr name \<Rightarrow>
                 Inr \<lparr>port = p, status = ''abierto'', service = Some name, error = None\<rparr>)
          else Inr \<lparr>port = p, status = ''cerrado'', service = None, error = None\<rparr>)"

subsection \<open>\<^verbatim>\<open>scan_ports\<close>\<close>

text \<open>
  \<^verbatim>\<open>as_completed\<close> yields every future once, in the order the pool finishes them.
  The order is the scheduler's: its choices are a list of numbers, each picking one of
  the futures still pending (modulo their number); when the choices run out the rest
  completes in the order of submission. A future is identified by its port.
\<close>

fun as_completed :: "nat list \<Rightarrow> 'a list \<Rightarrow> 'a list" where
  "as_completed [] pending = pending"
| "as_completed (k # ks) pending =
     (if pending = [] then []
      else let i = k mod length pending
           in pending ! i # as_completed ks (take i pending @ drop (Suc i) pending))"

text \<open>
  The loop of lines 68 to 78 over the completed futures, with the variables
  \<^verbatim>\<open>open_ports\<close> and \<^verbatim>\<open>scanned\<close>. \<^verbatim>\<open>future.result()\<close> raises what the probe
  raised. The argument \<open>intr\<close> is the operator's interrupt: \<open>Some k\<close> is a
  \<^verbatim>\<open>KeyboardInterrupt\<close> delivered to the loop when \<open>k\<close> results have been collected
  and another is awaited; \<open>None\<close> is no interrupt.
\<close>

fun collect ::
  "network \<Rightarrow> string \<Rightarrow> real \<Rightarrow> nat \<Rightarrow> nat option \<Rightarrow> int list \<Rightarrow>
   port_result list \<Rightarrow> nat \<Rightarrow> trace \<Rightarrow> (exn + port_result list) \<times> trace" where
  "collect net host timeout total_ports intr [] open_ports scanned tr = (Inr open_ports, tr)"
| "collect net host timeout total_ports intr (p # futures) open_ports scanned tr =
     (if intr = Some scanned then (Inl (Exn KeyboardInterrupt []), tr)
      else
        (case scan_port net host p timeout of
           Inl e \<Rightarrow> (Inl e, tr)
         | Inr result \<Rightarrow>
             collect net host timeout total_ports intr futures
               (if status result = ''abierto'' then open_ports @ [result] else open_ports)
               (scanned + 1)
               (tr\<lparr>results := results tr @ [result],
                   stdout := stdout tr
                     @ (if status result = ''abierto''
                        then [Open_line (port result) (service result)] else [])
                     @ (if (scanned + 1) mod 100 = 0
                        then [Progress (scanned + 1) total_ports] else [])\<rparr>)))"

text \<open>
  \<^verbatim>\<open>scan_ports\<close>. \<open>sched\<close> and \<open>intr\<close> are the scheduler's choices and the
  interrupt, the other arguments are the function's own.
  \<^verbatim>\<open>ThreadPoolExecutor(max_workers=n)\<close> raises \<^verbatim>\<open>ValueError\<close> when \<open>n \<le> 0\<close>.
  The dictionary comprehension of lines 65 and 66 submits a probe for every port before
  the loop collects the first result.
\<close>

definition scan_ports ::
  "network \<Rightarrow> nat list \<Rightarrow> nat option \<Rightarrow> string \<Rightarrow> int \<Rightarrow> int \<Rightarrow> real \<Rightarrow> int \<Rightarrow>
   (exn + port_result list) \<times> trace" where
  "scan_ports net sched intr host start_port end_port timeout max_workers =
     (let tr0 = \<lparr>probes = [], results = [], stdout = [Header host start_port end_port]\<rparr>
      in case gethostbyname net host of
           Inl e \<Rightarrow>
             if is_gaierror e
             then (Inr [], tr0\<lparr>stdout := stdout tr0 @ [Resolve_error host]\<rparr>)
             else (Inl e, tr0)
         | Inr target_ip \<Rightarrow>
             let tr1 = tr0\<lparr>stdout := stdout tr0 @ [Resolved_ip target_ip]\<rparr>;
                 ports_to_scan = [start_port..end_port];
                 total_ports = length ports_to_scan
             in if max_workers \<le> 0
                then (Inl (Exn ValueError ''max_workers must be greater than 0''), tr1)
                else
                  (case collect net host timeout total_ports intr
                          (as_completed sched ports_to_scan) [] 0
                          (tr1\<lparr>probes := map (\<lambda>port. (host, port, timeout)) ports_to_scan\<rparr>) of
                     (Inl e, tr2) \<Rightarrow> (Inl e, tr2)
                   | (Inr open_ports, tr2) \<Rightarrow>
                       (Inr (sort_key port open_ports),
                        tr2\<lparr>stdout := stdout tr2 @ [Footer (length open_ports)]\<rparr>)))"

subsection \<open>\<^verbatim>\<open>quick_scan\<close>\<close>

definition common_ports :: "int list" where
  "common_ports =
     [21, 22, 23, 25, 53, 80, 110, 135, 139, 143, 443, 445,
      993, 995, 1433, 1521, 3306, 3389, 5432, 5900, 8080, 8443]"

text \<open>
  The loop of lines 104 to 108: each probe is called, and its result looked at, before
  the next port is taken up.
\<close>

fun quick_loop ::
  "network \<Rightarrow> string \<Rightarrow> int list \<Rightarrow> port_result list \<Rightarrow> trace \<Rightarrow>
   (exn + port_result list) \<times> trace" where
  "quick_loop net host [] open_ports tr = (Inr open_ports, tr)"
| "quick_loop net host (p # ps) open_ports tr =
     (case scan_port net host p 0.5 of
        Inl e \<Rightarrow> (Inl e, tr\<lparr>probes := probes tr @ [(host, p, 0.5)]\<rparr>)
      | Inr result \<Rightarrow>
          quick_loop net host ps
            (if status result = ''abierto'' then open_ports @ [result] else open_ports)
            (tr\<lparr>probes := probes tr @ [(host, p, 0.5)],
                results := results tr @ [result],
                stdout := stdout tr
                  @ (if status result = ''abierto''
                     then [Open_line (port result) (service result)] else [])\<rparr>))"

definition quick_scan :: "network \<Rightarrow> string \<Rightarrow> (exn + port_result list) \<times> trace" where
  "quick_scan net host =
     (case quick_loop net host common_ports []
             \<lparr>probes = [], results = [],
              stdout = [Quick_header host (length common_ports)]\<rparr> of
        (Inl e, tr) \<Rightarrow> (Inl e, tr)
      | (Inr open_ports, tr) \<Rightarrow>
          (Inr open_ports, tr\<lparr>stdout := stdout tr @ [Quick_total (length open_ports)]\<rparr>))"

subsection \<open>A network to run the scans on\<close>

text \<open>
  A host \<^verbatim>\<open>localhost\<close> on which the ports 22 (ssh), 25 (smtp) and 8080 (no entry in
  the services database) accept connections, the probe of port 23 fails with a socket error and
  every other port refuses; no other name resolves.
\<close>

definition demo_net :: network where
  "demo_net =
     \<lparr>gethostbyname = (\<lambda>h. if h = ''localhost'' then Inr ''127.0.0.1''
                            else Inl (Exn gaierror ''[Errno -2] Name or service not known'')),
      connect_ex = (\<lambda>h p t. if p = 22 \<or> p = 25 \<or> p = 8080 then Inr 0
                            else if p = 23 then Inl (Exn OSError ''[Errno 101] Network is unreachable'')
                            else Inr 111),
      getservbyport = (\<lambda>p. if p = 22 then Inr ''ssh''
                            else if p = 25 then Inr ''smtp''
                            else Inl (Exn OSError ''port/proto not found''))\<rparr>"

section \<open>One probe\<close>

lemma scan_port_port: "scan_port net host p timeout = Inr r \<Longrightarrow> port r = p"
  by (auto simp: scan_port_def split: sum.splits if_splits)

lemma scan_port_status:
  "scan_port net host p timeout = Inr r \<Longrightarrow>
     status r = ''abierto'' \<or> status r = ''cerrado'' \<or> status r = ''error''"
  by (auto simp: scan_port_def split: sum.splits if_splits)

text \<open>
  C5. A probe whose connect is refused, or whose timeout elapses, is closed and not an
  error: \<^verbatim>\<open>connect_ex\<close> hands both back as a non-zero code, and every non-zero code
  gives the result with status \<^verbatim>\<open>"cerrado"\<close>, no service and no error detail.
\<close>

theorem scan_port_nonzero_code_closed:
  "connect_ex net host p timeout = Inr rc \<Longrightarrow> rc \<noteq> 0 \<Longrightarrow>
     scan_port net host p timeout =
       Inr \<lparr>port = p, status = ''cerrado'', service = None, error = None\<rparr>"
  by (simp add: scan_port_def)

theorem scan_port_nonzero_code_closed_witness:
  "connect_ex demo_net ''localhost'' 21 1 = Inr 111 \<and> (111::int) \<noteq> 0 \<and>
   scan_port demo_net ''localhost'' 21 1 =
     Inr \<lparr>port = 21, status = ''cerrado'', service = None, error = None\<rparr>"
proof -
  have c: "connect_ex demo_net ''localhost'' 21 1 = Inr 111"
    by (simp add: demo_net_def)
  have n: "(111::int) \<noteq> 0" by simp
  from scan_port_nonzero_code_closed [OF c n] c n show ?thesis by simp
qed

text \<open>
  C7, as the specification states it, fails: when the connect succeeds and the lookup of
  the service name raises, the result carries the service \<^verbatim>\<open>"desconocido"\<close>; the
  field is not absent. On \<open>demo_net\<close> port 8080 is such a port.
\<close>

theorem lookup_failure_counterexample:
  "connect_ex demo_net ''localhost'' 8080 1 = Inr 0 \<and>
   getservbyport demo_net 8080 = Inl (Exn OSError ''port/proto not found'') \<and>
   scan_port demo_net ''localhost'' 8080 1 =
     Inr \<lparr>port = 8080, status = ''abierto'', service = Some ''desconocido'', error = None\<rparr> \<and>
   scan_port demo_net ''localhost'' 8080 1 \<noteq>
     Inr \<lparr>port = 8080, status = ''abierto'', service = None, error = None\<rparr>"
  by (simp add: demo_net_def scan_port_def)

text \<open>
  C7, amended. The service name is looked up only when the connect succeeded, and the
  lookup is best effort: when it raises an \<^verbatim>\<open>OSError\<close> the port is still reported
  open, with the placeholder \<^verbatim>\<open>"desconocido"\<close> as its service; when it succeeds the
  service is the name found. When the connect did not succeed the result is the same
  whatever the services database \<open>lookup\<close> would answer: it is not consulted.
\<close>

theorem scan_port_service_lookup:
  "(connect_ex net host p timeout = Inr 0 \<and> getservbyport net p = Inl e \<and> is_OSError e \<longrightarrow>
      scan_port net host p timeout =
        Inr \<lparr>port = p, status = ''abierto'', service = Some ''desconocido'', error = None\<rparr>) \<and>
   (connect_ex net host p timeout = Inr 0 \<and> getservbyport net p = Inr name \<longrightarrow>
      scan_port net host p timeout =
        Inr \<lparr>port = p, status = ''abierto'', service = Some name, error = None\<rparr>) \<and>
   (connect_ex net host p timeout \<noteq> Inr 0 \<longrightarrow>
      scan_port (net\<lparr>getservbyport := lookup\<rparr>) host p timeout = scan_port net host p timeout)"
  by (auto simp: scan_port_def split: sum.splits)

theorem scan_port_service_lookup_witness:
  "(connect_ex demo_net ''localhost'' 8080 1 = Inr 0 \<and>
    getservbyport demo_net 8080 = Inl (Exn OSError ''port/proto not found'') \<and>
    is_OSError (Exn OSError ''port/proto not found'') \<and>
    scan_port demo_net ''localhost'' 8080 1 =
      Inr \<lparr>port = 8080, status = ''abierto'', service = Some ''desconocido'', error = None\<rparr>) \<and>
   (connect_ex demo_net ''localhost'' 22 1 = Inr 0 \<and> getservbyport demo_net 22 = Inr ''ssh'' \<and>
    scan_port demo_net ''localhost'' 22 1 =
      Inr \<lparr>port = 22, status = ''abierto'', service = Some ''ssh'', error = None\<rparr>) \<and>
   (connect_ex demo_net ''localhost'' 21 1 \<noteq> Inr 0 \<and>
    scan_port (demo_net\<lparr>getservbyport := (\<lambda>p. Inr ''ftp'')\<rparr>) ''localhost'' 21 1 =
      scan_port demo_net ''localhost'' 21 1)"
proof -
  have a: "connect_ex demo_net ''localhost'' 8080 1 = Inr 0"
    and b: "getservbyport demo_net 8080 = Inl (Exn OSError ''port/proto not found'')"
    and c: "connect_ex demo_net ''localhost'' 22 1 = Inr 0"
    and d: "getservbyport demo_net 22 = Inr ''ssh''"
    and e: "connect_ex demo_net ''localhost'' 21 1 \<noteq> Inr 0"
    by (simp_all add: demo_net_def)
  from scan_port_service_lookup
         [of demo_net "''localhost''" 8080 1 "Exn OSError ''port/proto not found''"]
    scan_port_service_lookup [of demo_net "''localhost''" 22 1 _ "''ssh''"]
    scan_port_service_lookup [of demo_net "''localhost''" 21 1 _ _ "\<lambda>p. Inr ''ftp''"]
    a b c d e
  show ?thesis by simp
qed

section \<open>The order of completion and the final sort\<close>

text \<open>Whatever the scheduler chooses, every future completes exactly once.\<close>

lemma mset_as_completed: "mset (as_completed ks xs) = mset xs"
proof (induction ks arbitrary: xs)
  case Nil
  then show ?case by simp
next
  case (Cons k ks)
  show ?case
  proof (cases "xs = []")
    case True
    then show ?thesis by simp
  next
    case False
    define i where "i = k mod length xs"
    have i: "i < length xs" using False by (simp add: i_def)
    have "xs = take i xs @ xs ! i # drop (Suc i) xs"
      using i by (rule id_take_nth_drop)
    then have "mset xs = add_mset (xs ! i) (mset (take i xs @ drop (Suc i) xs))"
      by (metis mset.simps(2) mset_append union_mset_add_mset_right)
    with Cons.IH [of "take i xs @ drop (Suc i) xs"] False show ?thesis
      by (simp add: i_def Let_def)
  qed
qed

lemma filter_key_singleton:
  "distinct (map f l) \<Longrightarrow> k \<in> set l \<Longrightarrow> filter (\<lambda>x. f k = f x) l = [k]"
proof (induction l)
  case Nil
  then show ?case by simp
next
  case (Cons a l)
  show ?case
  proof (cases "a = k")
    case True
    with Cons.prems have "\<forall>x\<in>set l. f k \<noteq> f x" by auto
    then have "filter (\<lambda>x. f k = f x) l = []" by (simp add: filter_empty_conv)
    with True show ?thesis by simp
  next
    case False
    with Cons.prems have kl: "k \<in> set l" by simp
    from Cons.prems have "f a \<notin> f ` set l" by simp
    with kl have "f k \<noteq> f a" by (metis imageI)
    with Cons kl show ?thesis by simp
  qed
qed

lemma keys_of_filtered:
  "\<forall>p\<in>set ps. f (g p) = p \<Longrightarrow> map f (filter P (map g ps)) = filter (\<lambda>p. P (g p)) ps"
  by (induction ps) auto

lemma sort_key_canonical:
  assumes perm: "mset qs = mset ps" and srt: "sorted ps" and dst: "distinct ps"
    and key: "\<forall>p\<in>set ps. f (g p) = p"
  shows "sort_key f (filter P (map g qs)) = filter P (map g ps)"
proof (rule properties_for_sort_key)
  show m: "mset (filter P (map g ps)) = mset (filter P (map g qs))"
    by (simp only: mset_filter mset_map perm)
  have sets: "set qs = set ps" using perm by (rule mset_eq_setD)
  have dq: "distinct qs" using perm dst by (metis mset_eq_imp_distinct_iff)
  have kq: "map f (filter P (map g qs)) = filter (\<lambda>p. P (g p)) qs"
    using key sets by (simp add: keys_of_filtered)
  have kp: "map f (filter P (map g ps)) = filter (\<lambda>p. P (g p)) ps"
    using key by (simp add: keys_of_filtered)
  show "sorted (map f (filter P (map g ps)))"
    using srt by (simp add: kp sorted_wrt_filter)
  fix k assume k: "k \<in> set (filter P (map g ps))"
  then have k': "k \<in> set (filter P (map g qs))"
    using m by (metis mset_eq_setD)
  have "filter (\<lambda>x. f k = f x) (filter P (map g ps)) = [k]"
    using k dst by (intro filter_key_singleton) (simp_all add: kp)
  moreover have "filter (\<lambda>x. f k = f x) (filter P (map g qs)) = [k]"
    using k' dq by (intro filter_key_singleton) (simp_all add: kq)
  ultimately show "filter (\<lambda>x. f k = f x) (filter P (map g ps))
      = filter (\<lambda>x. f k = f x) (filter P (map g qs))" by simp
qed

section \<open>The collecting loops\<close>


lemma collect_Inr:
  "collect net host t tot intr futures op sc tr = (Inr r, tr') \<Longrightarrow>
     \<exists>xs. list_all2 (\<lambda>p x. scan_port net host p t = Inr x) futures xs \<and>
          r = op @ filter (\<lambda>x. status x = ''abierto'') xs \<and>
          results tr' = results tr @ xs"
proof (induction futures arbitrary: op sc tr)
  case Nil
  then show ?case by simp
next
  case (Cons p futures)
  from Cons.prems obtain x where x: "scan_port net host p t = Inr x"
    by (cases "scan_port net host p t") (auto split: if_splits)
  from Cons.prems x have "intr \<noteq> Some sc" by (auto split: if_splits)
  with Cons.prems x obtain xs where
    "list_all2 (\<lambda>p x. scan_port net host p t = Inr x) futures xs"
    "r = (if status x = ''abierto'' then op @ [x] else op) @ filter (\<lambda>x. status x = ''abierto'') xs"
    "results tr' = (results tr @ [x]) @ xs"
    using Cons.IH by fastforce
  with x show ?case
    by (intro exI [of _ "x # xs"]) simp
qed

lemma collect_answered:
  "list_all2 (\<lambda>p x. scan_port net host p t = Inr x) futures xs \<Longrightarrow>
     fst (collect net host t tot None futures op sc tr)
       = Inr (op @ filter (\<lambda>x. status x = ''abierto'') xs)"
proof (induction futures arbitrary: xs op sc tr)
  case Nil
  then show ?case by simp
next
  case (Cons p futures)
  from Cons.prems obtain x xs' where xs: "xs = x # xs'"
    and x: "scan_port net host p t = Inr x"
    and rest: "list_all2 (\<lambda>p x. scan_port net host p t = Inr x) futures xs'"
    by (auto simp: list_all2_Cons1)
  show ?case using Cons.IH [OF rest] x xs by simp
qed


lemma quick_loop_Inr:
  "quick_loop net host ps op tr = (Inr r, tr') \<Longrightarrow>
     \<exists>xs. list_all2 (\<lambda>p x. scan_port net host p 0.5 = Inr x) ps xs \<and>
          r = op @ filter (\<lambda>x. status x = ''abierto'') xs \<and>
          results tr' = results tr @ xs \<and>
          probes tr' = probes tr @ map (\<lambda>p. (host, p, 0.5)) ps"
proof (induction ps arbitrary: op tr)
  case Nil
  then show ?case by simp
next
  case (Cons p ps)
  from Cons.prems obtain x where x: "scan_port net host p 0.5 = Inr x"
    by (cases "scan_port net host p 0.5") auto
  with Cons.prems obtain xs where
    "list_all2 (\<lambda>p x. scan_port net host p 0.5 = Inr x) ps xs"
    "r = (if status x = ''abierto'' then op @ [x] else op) @ filter (\<lambda>x. status x = ''abierto'') xs"
    "results tr' = (results tr @ [x]) @ xs"
    "probes tr' = (probes tr @ [(host, p, 0.5)]) @ map (\<lambda>p. (host, p, 0.5)) ps"
    using Cons.IH by fastforce
  with x show ?case
    by (intro exI [of _ "x # xs"]) simp
qed

lemma answered_ports:
  "list_all2 (\<lambda>p x. scan_port net host p t = Inr x) ps xs \<Longrightarrow> map port xs = ps"
  by (induction rule: list_all2_induct) (auto dest: scan_port_port)

lemma answered_eq_map:
  "list_all2 (\<lambda>p x. scan_port net host p t = Inr x) ps xs \<Longrightarrow>
     xs = map (\<lambda>p. projr (scan_port net host p t)) ps"
  by (induction rule: list_all2_induct) auto

lemma answered_map:
  "\<forall>p\<in>set ps. \<exists>x. scan_port net host p t = Inr x \<Longrightarrow>
     list_all2 (\<lambda>p x. scan_port net host p t = Inr x) ps
       (map (\<lambda>p. projr (scan_port net host p t)) ps)"
  by (induction ps) auto

lemma answered_all:
  "list_all2 (\<lambda>p x. scan_port net host p t = Inr x) ps xs \<Longrightarrow>
     \<forall>p\<in>set ps. \<exists>x. scan_port net host p t = Inr x"
  by (induction rule: list_all2_induct) auto

section \<open>The scan of a range\<close>

lemma scan_ports_unresolved:
  "gethostbyname net host = Inl x \<Longrightarrow> is_gaierror x \<Longrightarrow>
     scan_ports net sched intr host s e t mw =
       (Inr [], \<lparr>probes = [], results = [],
                 stdout = [Header host s e, Resolve_error host]\<rparr>)"
  by (simp add: scan_ports_def)

lemma scan_ports_resolved:
  "gethostbyname net host = Inr ip \<Longrightarrow> 0 < mw \<Longrightarrow>
     scan_ports net sched intr host s e t mw =
       (case collect net host t (length [s..e]) intr (as_completed sched [s..e]) [] 0
               \<lparr>probes = map (\<lambda>p. (host, p, t)) [s..e], results = [],
                stdout = [Header host s e, Resolved_ip ip]\<rparr> of
          (Inl x, tr2) \<Rightarrow> (Inl x, tr2)
        | (Inr open_ports, tr2) \<Rightarrow>
            (Inr (sort_key port open_ports),
             tr2\<lparr>stdout := stdout tr2 @ [Footer (length open_ports)]\<rparr>))"
  by (simp add: scan_ports_def Let_def)


lemma scan_ports_Inr:
  assumes res: "gethostbyname net host = Inr ip"
    and ret: "fst (scan_ports net sched intr host s e t mw) = Inr report"
  shows "\<exists>xs. list_all2 (\<lambda>p x. scan_port net host p t = Inr x) (as_completed sched [s..e]) xs \<and>
           report = sort_key port (filter (\<lambda>x. status x = ''abierto'') xs) \<and>
           results (snd (scan_ports net sched intr host s e t mw)) = xs"
proof -
  have mw: "0 < mw"
  proof (rule ccontr)
    assume "\<not> 0 < mw"
    with res have "isl (fst (scan_ports net sched intr host s e t mw))"
      by (simp add: scan_ports_def)
    with ret show False by simp
  qed
  let ?tr = "\<lparr>probes = map (\<lambda>p. (host, p, t)) [s..e], results = [],
                stdout = [Header host s e, Resolved_ip ip]\<rparr>"
  let ?c = "collect net host t (length [s..e]) intr (as_completed sched [s..e]) [] 0 ?tr"
  obtain v tr2 where c: "?c = (v, tr2)" by (cases ?c)
  with ret obtain op where v: "v = Inr op" and rep: "report = sort_key port op"
    by (cases v) (auto simp: scan_ports_resolved [OF res mw])
  from collect_Inr [OF c [unfolded v]] obtain xs where
    "list_all2 (\<lambda>p x. scan_port net host p t = Inr x) (as_completed sched [s..e]) xs"
    "op = filter (\<lambda>x. status x = ''abierto'') xs" "results tr2 = xs" by auto
  with rep c v show ?thesis
    by (simp add: scan_ports_resolved [OF res mw])
qed

lemma scan_ports_answered:
  assumes res: "gethostbyname net host = Inr ip" and mw: "0 < mw"
    and ans: "\<forall>p\<in>set [s..e]. \<exists>x. scan_port net host p t = Inr x"
  shows "fst (scan_ports net sched None host s e t mw) =
           Inr (filter (\<lambda>x. status x = ''abierto'')
                  (map (\<lambda>p. projr (scan_port net host p t)) [s..e]))"
proof -
  let ?g = "\<lambda>p. projr (scan_port net host p t)"
  let ?qs = "as_completed sched [s..e]"
  let ?tr = "\<lparr>probes = map (\<lambda>p. (host, p, t)) [s..e], results = [],
                stdout = [Header host s e, Resolved_ip ip]\<rparr>"
  have perm: "mset ?qs = mset [s..e]" by (rule mset_as_completed)
  then have "set ?qs = set [s..e]" by (rule mset_eq_setD)
  with ans have "\<forall>p\<in>set ?qs. \<exists>x. scan_port net host p t = Inr x" by simp
  then have "list_all2 (\<lambda>p x. scan_port net host p t = Inr x) ?qs (map ?g ?qs)"
    by (rule answered_map)
  then have c: "fst (collect net host t (length [s..e]) None ?qs [] 0 ?tr)
      = Inr ([] @ filter (\<lambda>x. status x = ''abierto'') (map ?g ?qs))"
    by (rule collect_answered)
  have key: "\<forall>p\<in>set [s..e]. port (?g p) = p"
    using ans by (metis scan_port_port sum.sel(2))
  have "sort_key port (filter (\<lambda>x. status x = ''abierto'') (map ?g ?qs))
      = filter (\<lambda>x. status x = ''abierto'') (map ?g [s..e])"
    using perm _ _ key by (rule sort_key_canonical) simp_all
  with c show ?thesis
    by (cases "collect net host t (length [s..e]) None ?qs [] 0 ?tr")
       (simp add: scan_ports_resolved [OF res mw])
qed

section \<open>Facts shared by the statements about the scans\<close>

text \<open>
  The model of the scheduler leaves no order out: every arrangement of the submitted
  futures is the order of completion of some list of choices.
\<close>


lemma as_completed_complete:
  "mset ys = mset xs \<Longrightarrow> \<exists>ks. as_completed ks xs = ys"
proof (induction ys arbitrary: xs)
  case Nil
  then have "xs = []" by simp
  then have "as_completed [] xs = []" by simp
  then show ?case by blast
next
  case (Cons y ys)
  from Cons.prems have "y \<in> set xs" by (metis list.set_intros(1) mset_eq_setD)
  then obtain i where i: "i < length xs" and y: "xs ! i = y"
    by (auto simp: in_set_conv_nth)
  have "xs = take i xs @ xs ! i # drop (Suc i) xs"
    using i by (rule id_take_nth_drop)
  then have "mset xs = add_mset y (mset (take i xs @ drop (Suc i) xs))"
    by (metis y mset.simps(2) mset_append union_mset_add_mset_right)
  with Cons.prems have "mset ys = mset (take i xs @ drop (Suc i) xs)" by simp
  from Cons.IH [OF this] obtain ks where
    ks: "as_completed ks (take i xs @ drop (Suc i) xs) = ys" by blast
  from i have "xs \<noteq> []" by auto
  with i y ks have "as_completed (i # ks) xs = y # ys" by simp
  then show ?case by blast
qed




lemma scan_ports_positive:
  assumes "gethostbyname net host = Inr ip"
    and "fst (scan_ports net sched intr host s e t mw) = Inr report"
  shows "0 < mw"
proof (rule ccontr)
  assume "\<not> 0 < mw"
  with assms(1) have "isl (fst (scan_ports net sched intr host s e t mw))"
    by (simp add: scan_ports_def)
  with assms(2) show False by simp
qed

lemma strict_sorted_filter_map:
  "sorted_wrt (<) (map f xs) \<Longrightarrow> sorted_wrt (<) (map f (filter P xs))"
  by (simp add: sorted_wrt_map sorted_wrt_filter)

lemma quick_scan_Inr:
  assumes "fst (quick_scan net host) = Inr report"
  shows "\<exists>xs. list_all2 (\<lambda>p x. scan_port net host p 0.5 = Inr x) common_ports xs \<and>
           report = filter (\<lambda>x. status x = ''abierto'') xs \<and>
           results (snd (quick_scan net host)) = xs \<and>
           probes (snd (quick_scan net host)) = map (\<lambda>p. (host, p, 0.5)) common_ports"
proof -
  let ?tr = "\<lparr>probes = [], results = [], stdout = [Quick_header host (length common_ports)]\<rparr>"
  obtain v tr' where q: "quick_loop net host common_ports [] ?tr = (v, tr')"
    by (cases "quick_loop net host common_ports [] ?tr")
  with assms have v: "v = Inr report"
    by (cases v) (simp_all add: quick_scan_def)
  from quick_loop_Inr [OF q [unfolded v]] q v show ?thesis
    by (auto simp: quick_scan_def)
qed

section \<open>The scan and its report\<close>

text \<open>
  C1, as the specification states it, fails: for a host name that does not resolve,
  \<^verbatim>\<open>scan_ports\<close> catches the \<^verbatim>\<open>gaierror\<close>, prints a message and returns the empty
  list. The caller receives an ordinary value and no resolution error.
\<close>

theorem unresolvable_host_counterexample:
  "gethostbyname demo_net ''does-not-exist.invalid''
     = Inl (Exn gaierror ''[Errno -2] Name or service not known'') \<and>
   scan_ports demo_net [] None ''does-not-exist.invalid'' 1 1024 1 100
     = (Inr [], \<lparr>probes = [], results = [],
                 stdout = [Header ''does-not-exist.invalid'' 1 1024,
                           Resolve_error ''does-not-exist.invalid'']\<rparr>)"
  by (simp add: scan_ports_def demo_net_def)

text \<open>
  C1, amended. When the host name does not resolve (\<^verbatim>\<open>gethostbyname\<close> raises
  \<^verbatim>\<open>gaierror\<close>) the scan stops at once: no probe is dispatched, no result is
  collected, one error line is printed after the banner, and the empty list is returned
  to the caller as the value of the call.
\<close>

theorem unresolvable_host_empty_report:
  "gethostbyname net host = Inl x \<Longrightarrow> is_gaierror x \<Longrightarrow>
     scan_ports net sched intr host start_port end_port timeout max_workers
       = (Inr [], \<lparr>probes = [], results = [],
                   stdout = [Header host start_port end_port, Resolve_error host]\<rparr>)"
  by (rule scan_ports_unresolved)

text \<open>
  The amended C1 on \<open>demo_net\<close>, for a name it does not resolve.
\<close>

theorem unresolvable_host_empty_report_witness:
  "gethostbyname demo_net ''example.invalid''
     = Inl (Exn gaierror ''[Errno -2] Name or service not known'') \<and>
   is_gaierror (Exn gaierror ''[Errno -2] Name or service not known'') \<and>
   scan_ports demo_net [2, 0] (Some 1) ''example.invalid'' 1 1024 1 100
     = (Inr [], \<lparr>probes = [], results = [],
                 stdout = [Header ''example.invalid'' 1 1024,
                           Resolve_error ''example.invalid'']\<rparr>)"
proof -
  have r: "gethostbyname demo_net ''example.invalid''
      = Inl (Exn gaierror ''[Errno -2] Name or service not known'')"
    by (simp add: demo_net_def)
  have g: "is_gaierror (Exn gaierror ''[Errno -2] Name or service not known'')" by simp
  from unresolvable_host_empty_report [OF r g, of "[2, 0]" "Some 1" 1 1024 1 100] r g
  show ?thesis by simp
qed




text \<open>
  C3. A scan that returns a report returns exactly the collected results whose status
  is \<^verbatim>\<open>"abierto"\<close>, each as often as it was collected, in strictly ascending order
  of port; the report is the same for every other order of completion \<open>sched'\<close>.
  The report of a quick scan is the list of its open results, and it is in strictly
  ascending order of port as well.
\<close>

theorem report_open_and_sorted:
  "(fst (scan_ports net sched intr host start_port end_port timeout max_workers) = Inr report \<longrightarrow>
      mset report
        = filter_mset (\<lambda>r. status r = ''abierto'')
            (mset (results (snd (scan_ports net sched intr host
                                   start_port end_port timeout max_workers)))) \<and>
      sorted_wrt (<) (map port report) \<and>
      fst (scan_ports net sched' None host start_port end_port timeout max_workers) = Inr report) \<and>
   (fst (quick_scan net host) = Inr quick_report \<longrightarrow>
      quick_report
        = filter (\<lambda>r. status r = ''abierto'') (results (snd (quick_scan net host))) \<and>
      sorted_wrt (<) (map port quick_report))"
proof (intro conjI impI)
  assume q: "fst (quick_scan net host) = Inr quick_report"
  from quick_scan_Inr [OF q] obtain xs where
    ans: "list_all2 (\<lambda>p x. scan_port net host p 0.5 = Inr x) common_ports xs"
    and rep: "quick_report = filter (\<lambda>x. status x = ''abierto'') xs"
    and xs: "results (snd (quick_scan net host)) = xs" by blast
  show "quick_report
        = filter (\<lambda>r. status r = ''abierto'') (results (snd (quick_scan net host)))"
    by (simp only: rep xs)
  from ans have "map port xs = common_ports" by (rule answered_ports)
  moreover have "sorted_wrt (<) common_ports" by (simp add: common_ports_def)
  ultimately have "sorted_wrt (<) (map port xs)" by simp
  then show "sorted_wrt (<) (map port quick_report)"
    unfolding rep by (rule strict_sorted_filter_map)
next
  let ?run = "scan_ports net sched intr host start_port end_port timeout max_workers"
  let ?run' = "scan_ports net sched' None host start_port end_port timeout max_workers"
  let ?open = "\<lambda>r. status r = ''abierto''"
  let ?g = "\<lambda>p. projr (scan_port net host p timeout)"
  let ?ps = "[start_port..end_port]"
  assume ret: "fst ?run = Inr report"
  have "mset report = filter_mset ?open (mset (results (snd ?run))) \<and>
        sorted_wrt (<) (map port report) \<and> fst ?run' = Inr report"
  proof (cases "gethostbyname net host")
    case (Inl x)
    show ?thesis
    proof (cases "is_gaierror x")
      case True
      from scan_ports_unresolved [OF Inl True] ret show ?thesis by auto
    next
      case False
      with Inl ret show ?thesis by (simp add: scan_ports_def)
    qed
  next
    case (Inr ip)
    from scan_ports_Inr [OF Inr ret] obtain xs where
      ans: "list_all2 (\<lambda>p x. scan_port net host p timeout = Inr x) (as_completed sched ?ps) xs"
      and rep: "report = sort_key port (filter ?open xs)"
      and xs: "results (snd ?run) = xs" by blast
    have mw: "0 < max_workers" using Inr ret by (rule scan_ports_positive)
    have perm: "mset (as_completed sched ?ps) = mset ?ps" by (rule mset_as_completed)
    then have sets: "set (as_completed sched ?ps) = set ?ps" by (rule mset_eq_setD)
    from ans have "\<forall>p\<in>set (as_completed sched ?ps). \<exists>x. scan_port net host p timeout = Inr x"
      by (rule answered_all)
    then have all: "\<forall>p\<in>set ?ps. \<exists>x. scan_port net host p timeout = Inr x"
      by (simp only: sets)
    then have key: "\<forall>p\<in>set ?ps. port (?g p) = p"
      by (metis scan_port_port sum.sel(2))
    from ans have "xs = map ?g (as_completed sched ?ps)" by (rule answered_eq_map)
    then have "report = sort_key port (filter ?open (map ?g (as_completed sched ?ps)))"
      by (simp only: rep)
    also have "\<dots> = filter ?open (map ?g ?ps)"
      using perm _ _ key by (rule sort_key_canonical) simp_all
    finally have canon: "report = filter ?open (map ?g ?ps)" .
    have "map port report = filter (\<lambda>p. status (?g p) = ''abierto'') ?ps"
      unfolding canon using key by (rule keys_of_filtered)
    moreover have "sorted_wrt (<) ?ps" by (simp add: strict_sorted_iff)
    ultimately have "sorted_wrt (<) (map port report)"
      by (simp add: sorted_wrt_filter)
    moreover have "mset report = filter_mset ?open (mset (results (snd ?run)))"
      by (simp add: rep xs)
    moreover have "fst ?run' = Inr report"
      unfolding canon using Inr mw all by (rule scan_ports_answered)
    ultimately show ?thesis by simp
  qed
  then show "mset report = filter_mset ?open (mset (results (snd ?run)))"
    and "sorted_wrt (<) (map port report)" and "fst ?run' = Inr report" by simp_all
qed

text \<open>
  C3 on \<open>demo_net\<close>: port 25 completes first and port 22 later, and the report
  lists 22 before 25; another order of completion gives the same report.
\<close>

theorem report_open_and_sorted_witness:
  "fst (scan_ports demo_net [4, 0] None ''localhost'' 21 25 1 100)
     = Inr [\<lparr>port = 22, status = ''abierto'', service = Some ''ssh'', error = None\<rparr>,
            \<lparr>port = 25, status = ''abierto'', service = Some ''smtp'', error = None\<rparr>] \<and>
   map port (results (snd (scan_ports demo_net [4, 0] None ''localhost'' 21 25 1 100)))
     = [25, 21, 22, 23, 24] \<and>
   fst (scan_ports demo_net [1, 1, 1] None ''localhost'' 21 25 1 100)
     = Inr [\<lparr>port = 22, status = ''abierto'', service = Some ''ssh'', error = None\<rparr>,
            \<lparr>port = 25, status = ''abierto'', service = Some ''smtp'', error = None\<rparr>] \<and>
   fst (quick_scan demo_net ''localhost'')
     = Inr [\<lparr>port = 22, status = ''abierto'', service = Some ''ssh'', error = None\<rparr>,
            \<lparr>port = 25, status = ''abierto'', service = Some ''smtp'', error = None\<rparr>,
            \<lparr>port = 8080, status = ''abierto'', service = Some ''desconocido'', error = None\<rparr>] \<and>
   filter (\<lambda>r. status r = ''abierto'') (results (snd (quick_scan demo_net ''localhost'')))
     = [\<lparr>port = 22, status = ''abierto'', service = Some ''ssh'', error = None\<rparr>,
        \<lparr>port = 25, status = ''abierto'', service = Some ''smtp'', error = None\<rparr>,
        \<lparr>port = 8080, status = ''abierto'', service = Some ''desconocido'', error = None\<rparr>]"
proof -
  have s: "fst (scan_ports demo_net [4, 0] None ''localhost'' 21 25 1 100)
     = Inr [\<lparr>port = 22, status = ''abierto'', service = Some ''ssh'', error = None\<rparr>,
            \<lparr>port = 25, status = ''abierto'', service = Some ''smtp'', error = None\<rparr>]"
    by (simp add: scan_ports_def demo_net_def scan_port_def Let_def)
  have o: "map port (results (snd (scan_ports demo_net [4, 0] None ''localhost'' 21 25 1 100)))
     = [25, 21, 22, 23, 24]"
    by (simp add: scan_ports_def demo_net_def scan_port_def Let_def)
  have q: "fst (quick_scan demo_net ''localhost'')
     = Inr [\<lparr>port = 22, status = ''abierto'', service = Some ''ssh'', error = None\<rparr>,
            \<lparr>port = 25, status = ''abierto'', service = Some ''smtp'', error = None\<rparr>,
            \<lparr>port = 8080, status = ''abierto'', service = Some ''desconocido'', error = None\<rparr>]"
    by (simp add: quick_scan_def common_ports_def demo_net_def scan_port_def)
  from report_open_and_sorted [of demo_net "[4, 0]" None "''localhost''" 21 25 1 100 _
         "[1, 1, 1]" _] s o q
  show ?thesis by simp
qed

text \<open>
  C4. A scan of a range whose host resolved and which returns its report (so neither
  an interrupt nor an exception ended it) has collected one result for each port from
  \<open>start_port\<close> to \<open>end_port\<close>: the ports of the collected results are those of
  the range, each once, and each result is the one the probe of its port gives.
\<close>

theorem one_result_per_port:
  assumes "gethostbyname net host = Inr ip"
    and "fst (scan_ports net sched intr host start_port end_port timeout max_workers) = Inr report"
  shows "mset (map port (results (snd (scan_ports net sched intr host
                 start_port end_port timeout max_workers))))
           = mset [start_port..end_port] \<and>
         (\<forall>r\<in>set (results (snd (scan_ports net sched intr host
                 start_port end_port timeout max_workers))).
            scan_port net host (port r) timeout = Inr r)"
proof -
  let ?run = "scan_ports net sched intr host start_port end_port timeout max_workers"
  let ?qs = "as_completed sched [start_port..end_port]"
  from scan_ports_Inr [OF assms] obtain xs where
    ans: "list_all2 (\<lambda>p x. scan_port net host p timeout = Inr x) ?qs xs"
    and xs: "results (snd ?run) = xs" by blast
  from ans have ports: "map port xs = ?qs" by (rule answered_ports)
  have "mset (map port xs) = mset [start_port..end_port]"
    by (simp only: ports mset_as_completed)
  moreover have "\<forall>r\<in>set xs. scan_port net host (port r) timeout = Inr r"
    using ans by (induction rule: list_all2_induct) (auto dest: scan_port_port)
  ultimately show ?thesis by (simp add: xs)
qed

text \<open>
  C4 on \<open>demo_net\<close>, for the ports 21 to 24 completing in the order 23, 21, 22, 24.
\<close>

theorem one_result_per_port_witness:
  "gethostbyname demo_net ''localhost'' = Inr ''127.0.0.1'' \<and>
   fst (scan_ports demo_net [2, 0] None ''localhost'' 21 24 1 100)
     = Inr [\<lparr>port = 22, status = ''abierto'', service = Some ''ssh'', error = None\<rparr>] \<and>
   mset (map port (results (snd (scan_ports demo_net [2, 0] None ''localhost'' 21 24 1 100))))
     = mset [21, 22, 23, 24] \<and>
   map port (results (snd (scan_ports demo_net [2, 0] None ''localhost'' 21 24 1 100)))
     = [23, 21, 22, 24]"
proof -
  have r: "gethostbyname demo_net ''localhost'' = Inr ''127.0.0.1''"
    by (simp add: demo_net_def)
  have f: "fst (scan_ports demo_net [2, 0] None ''localhost'' 21 24 1 100)
     = Inr [\<lparr>port = 22, status = ''abierto'', service = Some ''ssh'', error = None\<rparr>]"
    by (simp add: scan_ports_def demo_net_def scan_port_def Let_def)
  have o: "map port (results (snd (scan_ports demo_net [2, 0] None ''localhost'' 21 24 1 100)))
     = [23, 21, 22, 24]"
    by (simp add: scan_ports_def demo_net_def scan_port_def Let_def)
  have u: "[21..24] = [21, 22, 23, 24::int]" by (simp add: upto_rec1)
  from one_result_per_port [OF r f] r f o u show ?thesis by simp
qed










end
